theory Spec2Isabelle
  imports Main "HOL-Library.Sublist"
begin

section \<open>The alarm list of alarm\_cond.c\<close>

text \<open>
  The program keeps one singly linked list of alarm requests (\<open>alarm_list\<close>), sorted by
  expiry time, and the expiry the alarm thread is waiting for (\<open>current_alarm\<close>, 0 when it
  is idle). The main thread reads command lines and inserts requests; the alarm thread pops
  the head, waits for its expiry on a condition variable and prints it.

  The linked list is modelled by the HOL list of its nodes, head first: the \<open>link\<close> field of
  a node is its position in that list and \<open>NULL\<close> is the empty list. Every node handed to
  \<open>alarm_insert\<close> is either freshly allocated or was just popped by the alarm thread, so it
  is never a node of the list it is inserted into. The C \<open>int\<close> and \<open>time_t\<close> fields are
  integers: the program compares and prints them, and adds an \<open>int\<close> to the 64-bit clock
  once, which cannot wrap.
\<close>

subsection \<open>Data\<close>

record alarm_t =
  type :: char
  seconds :: int
  messageType :: int
  messageNumber :: int
  time :: int
  message :: string

record state =
  alarm_list :: "alarm_t list"
  current_alarm :: int

text \<open>
  What the program does to the outside is kept as a trace of its calls: \<open>printf\<close> and
  \<open>fprintf (stderr, ...)\<close> with the format string of the source and the argument values,
  \<open>pthread_cond_signal\<close> on \<open>alarm_cond\<close>, and \<open>free\<close>.
\<close>

datatype arg = I int | C char | S string

datatype event =
  Printf string "arg list"
| Fprintf_stderr string "arg list"
| Cond_signal
| Free alarm_t

text \<open>
  The ways the process ends: \<open>exit\<close>, \<open>err_abort (status, text)\<close> and
  \<open>errno_abort (text)\<close> of errors.h (both print and call \<open>abort\<close>), a store through a
  null pointer, and a store behind the end of the 128 bytes of \<open>message\<close>.
\<close>

datatype error =
  Exit int
| Err_abort int string
| Errno_abort string
| Null_deref
| Buffer_overrun

subsection \<open>alarm\_insert\<close>

text \<open>
  The scan of \<open>alarm_insert\<close> (alarm\_cond.c, lines 56 to 85). The second argument is the
  list from \<open>next\<close> on; the nodes before it stay as they are and are put back in front of
  the result, which is what writing through \<open>last\<close> does.

  \<^item> At a node of type \<open>'A'\<close> with the message number of the new alarm the source prints the
    replacement line, sets \<open>alarm->link = next\<close> and the local variable \<open>next = alarm\<close>,
    and leaves the loop. Nothing is written through \<open>last\<close>, and \<open>next\<close> is not
    \<open>NULL\<close> afterwards, so the list from here on is the old one.
  \<^item> At a node that expires no earlier than the new alarm, the alarm is linked in before it.
  \<^item> At the end of the list the alarm is appended.

  \<open>tnow\<close> is the value of \<open>time (NULL)\<close> in the printed line. Both lines take the
  message number and the type of the new alarm.
\<close>

definition replacement_line :: "int \<Rightarrow> alarm_t \<Rightarrow> event" where
  "replacement_line tnow alarm =
     Printf ''Type A Replacement Alarm Request With Message Number %d Inserted Into Alarm List at %lld: %c\<newline>''
       [I (messageNumber alarm), I tnow, C (type alarm)]"

definition inserted_line :: "int \<Rightarrow> alarm_t \<Rightarrow> event" where
  "inserted_line tnow alarm =
     Printf ''Type A Alarm Request With Message Number %d Inserted Into Alarm List at %lld: %c\<newline>''
       [I (messageNumber alarm), I tnow, C (type alarm)]"

fun insert_scan :: "int \<Rightarrow> alarm_t \<Rightarrow> alarm_t list \<Rightarrow> alarm_t list \<times> event list" where
  "insert_scan tnow alarm [] = ([alarm], [])"
| "insert_scan tnow alarm (n # rest) =
     (if type n = CHR ''A'' \<and> messageNumber n = messageNumber alarm then
        (n # rest, [replacement_line tnow alarm])
      else if time n \<ge> time alarm then
        (alarm # n # rest, [inserted_line tnow alarm])
      else
        (case insert_scan tnow alarm rest of (l, ev) \<Rightarrow> (n # l, ev)))"

text \<open>
  The wake decision (lines 99 to 105). \<open>sig_status\<close> is what \<open>pthread_cond_signal\<close>
  returns; a status other than 0 aborts the process.
\<close>

definition wake :: "alarm_t \<Rightarrow> int \<Rightarrow> bool" where
  "wake alarm cur \<longleftrightarrow> cur = 0 \<or> time alarm < cur"

definition alarm_insert ::
  "int \<Rightarrow> int \<Rightarrow> alarm_t \<Rightarrow> state \<Rightarrow> event list \<times> (error + state)" where
  "alarm_insert tnow sig_status alarm s =
     (case insert_scan tnow alarm (alarm_list s) of (l, ev) \<Rightarrow>
        if wake alarm (current_alarm s) then
          (if sig_status \<noteq> 0 then
             (ev @ [Cond_signal], Inl (Err_abort sig_status ''Signal cond''))
           else
             (ev @ [Cond_signal], Inr \<lparr>alarm_list = l, current_alarm = time alarm\<rparr>))
        else
          (ev, Inr \<lparr>alarm_list = l, current_alarm = current_alarm s\<rparr>))"

text \<open>
  The other source file (an earlier state of the program, whose \<open>alarm_t\<close> has no
  \<open>type\<close> field) has the same \<open>alarm_insert\<close> without the replacement test and without
  the printed lines.
\<close>

fun insert_scan_part0 :: "alarm_t \<Rightarrow> alarm_t list \<Rightarrow> alarm_t list" where
  "insert_scan_part0 alarm [] = [alarm]"
| "insert_scan_part0 alarm (n # rest) =
     (if time n \<ge> time alarm then alarm # n # rest
      else n # insert_scan_part0 alarm rest)"

definition alarm_insert_part0 ::
  "int \<Rightarrow> alarm_t \<Rightarrow> state \<Rightarrow> event list \<times> (error + state)" where
  "alarm_insert_part0 sig_status alarm s =
     (let l = insert_scan_part0 alarm (alarm_list s) in
        if wake alarm (current_alarm s) then
          (if sig_status \<noteq> 0 then
             ([Cond_signal], Inl (Err_abort sig_status ''Signal cond''))
           else
             ([Cond_signal], Inr \<lparr>alarm_list = l, current_alarm = time alarm\<rparr>))
        else
          ([], Inr \<lparr>alarm_list = l, current_alarm = current_alarm s\<rparr>))"

text \<open>The lists that calls of \<open>alarm_insert\<close> build from the empty list.\<close>

inductive reachable :: "alarm_t list \<Rightarrow> bool" where
  reachable_empty: "reachable []"
| reachable_insert:
    "reachable (alarm_list s) \<Longrightarrow> alarm_insert tnow sig_status alarm s = (ev, Inr s')
      \<Longrightarrow> reachable (alarm_list s')"

inductive reachable_part0 :: "alarm_t list \<Rightarrow> bool" where
  reachable_part0_empty: "reachable_part0 []"
| reachable_part0_insert:
    "reachable_part0 (alarm_list s) \<Longrightarrow> alarm_insert_part0 sig_status alarm s = (ev, Inr s')
      \<Longrightarrow> reachable_part0 (alarm_list s')"

definition time_sorted :: "alarm_t list \<Rightarrow> bool" where
  "time_sorted l \<longleftrightarrow> sorted (map time l)"

definition head_earliest :: "alarm_t list \<Rightarrow> bool" where
  "head_earliest l \<longleftrightarrow> (case l of [] \<Rightarrow> True | h # _ \<Rightarrow> list_all (\<lambda>x. time h \<le> time x) l)"

subsection \<open>The alarm thread\<close>

text \<open>
  The alarm thread gives up the mutex only inside \<open>pthread_cond_wait\<close> and
  \<open>pthread_cond_timedwait\<close>. Each such call is answered by the environment with the status
  it returns and the shared state the thread finds when it holds the mutex again (whatever
  other threads did meanwhile). The answers still to come are a list; a thread whose list is
  used up stays blocked, which is the result \<open>None\<close>.
\<close>

type_synonym wait_result = "int \<times> state"

definition ETIMEDOUT :: int where
  "ETIMEDOUT = 110"

text \<open>Lines 135 to 142: wait until the list is not empty, then take its head off.\<close>

fun wait_and_pop ::
  "state \<Rightarrow> wait_result list \<Rightarrow> (error + alarm_t \<times> state \<times> wait_result list) option" where
  "wait_and_pop s ws =
     (case alarm_list s of
        alarm # rest \<Rightarrow> Some (Inr (alarm, s\<lparr>alarm_list := rest\<rparr>, ws))
      | [] \<Rightarrow>
         (case ws of
            [] \<Rightarrow> None
          | (status, s') # ws' \<Rightarrow>
              if status \<noteq> 0 then Some (Inl (Err_abort status ''Wait on cond''))
              else wait_and_pop s' ws'))"

text \<open>
  Lines 154 to 165: wait while \<open>current_alarm\<close> is the expiry of the popped alarm. The
  boolean of the result is \<open>expired\<close>.
\<close>

fun timed_wait ::
  "alarm_t \<Rightarrow> state \<Rightarrow> wait_result list \<Rightarrow> (error + bool \<times> state \<times> wait_result list) option" where
  "timed_wait alarm s ws =
     (if current_alarm s = time alarm then
        (case ws of
           [] \<Rightarrow> None
         | (status, s') # ws' \<Rightarrow>
             if status = ETIMEDOUT then Some (Inr (True, s', ws'))
             else if status \<noteq> 0 then Some (Inl (Err_abort status ''Cond timedwait''))
             else timed_wait alarm s' ws')
      else Some (Inr (False, s, ws)))"

text \<open>Lines 171 to 175: the alarm fires.\<close>

definition fire :: "alarm_t \<Rightarrow> event list" where
  "fire alarm = [Printf ''(%d) %s\<newline>'' [I (seconds alarm), S (message alarm)], Free alarm]"

text \<open>
  One turn of the loop of \<open>alarm_thread\<close> (lines 134 to 175). \<open>ins\<close> is the
  \<open>alarm_insert\<close> of the file at hand with its environment, \<open>now\<close> the value of
  \<open>time (NULL)\<close> at line 143.
\<close>

definition alarm_thread_turn ::
  "(alarm_t \<Rightarrow> state \<Rightarrow> event list \<times> (error + state)) \<Rightarrow> int \<Rightarrow> state \<Rightarrow> wait_result list
     \<Rightarrow> (event list \<times> (error + state \<times> wait_result list)) option" where
  "alarm_thread_turn ins now s ws =
     (case wait_and_pop (s\<lparr>current_alarm := 0\<rparr>) ws of
        None \<Rightarrow> None
      | Some (Inl e) \<Rightarrow> Some ([], Inl e)
      | Some (Inr (alarm, s1, ws1)) \<Rightarrow>
          if time alarm > now then
            (case timed_wait alarm (s1\<lparr>current_alarm := time alarm\<rparr>) ws1 of
               None \<Rightarrow> None
             | Some (Inl e) \<Rightarrow> Some ([], Inl e)
             | Some (Inr (expired, s2, ws2)) \<Rightarrow>
                 if \<not> expired then
                   (case ins alarm s2 of
                      (ev, Inl e) \<Rightarrow> Some (ev, Inl e)
                    | (ev, Inr s3) \<Rightarrow> Some (ev, Inr (s3, ws2)))
                 else Some (fire alarm, Inr (s2, ws2)))
          else Some (fire alarm, Inr (s1, ws1)))"

subsection \<open>Reading a command line\<close>

text \<open>
  \<open>fgets (line, n, stdin)\<close>: at most \<open>n - 1\<close> characters, up to and including the first
  newline; \<open>NULL\<close> (here \<open>None\<close>) at the end of the input. The result is what was read
  and the rest of the input.
\<close>

fun fgets_take :: "nat \<Rightarrow> string \<Rightarrow> string" where
  "fgets_take 0 inp = []"
| "fgets_take (Suc k) [] = []"
| "fgets_take (Suc k) (c # cs) = (if c = CHR 0x0A then [c] else c # fgets_take k cs)"

definition fgets :: "nat \<Rightarrow> string \<Rightarrow> (string \<times> string) option" where
  "fgets n inp =
     (if inp = [] then None
      else let r = fgets_take (n - 1) inp in Some (r, drop (length r) inp))"

text \<open>The C string in a buffer ends before the first zero byte.\<close>

definition c_string :: "string \<Rightarrow> string" where
  "c_string buf = takeWhile (\<lambda>c. c \<noteq> CHR 0x00) buf"

text \<open>
  \<open>line[i]\<close> for a C string: the terminating zero byte sits at index \<open>length line\<close>. The
  comparisons of \<open>typeFinder\<close> are chained with \<open>&&\<close> and stop at the first one that
  fails, which is at the terminator at the latest, so no byte behind it is read.
\<close>

definition line_at :: "string \<Rightarrow> nat \<Rightarrow> char" where
  "line_at line i = (if i < length line then line ! i else CHR 0x00)"

definition isdigit :: "char \<Rightarrow> bool" where
  "isdigit c \<longleftrightarrow> c \<in> set ''0123456789''"

definition isspace :: "char \<Rightarrow> bool" where
  "isspace c \<longleftrightarrow> c \<in> {CHR '' '', CHR 0x09, CHR 0x0A, CHR 0x0B, CHR 0x0C, CHR 0x0D}"

definition typeFinder :: "string \<Rightarrow> char" where
  "typeFinder line =
     (if isdigit (line_at line 0) then CHR ''A''
      else if line_at line 0 = CHR ''C'' \<and> line_at line 1 = CHR ''r'' \<and> line_at line 2 = CHR ''e''
            \<and> line_at line 3 = CHR ''a'' \<and> line_at line 4 = CHR ''t'' \<and> line_at line 5 = CHR ''e''
            \<and> line_at line 6 = CHR ''_'' \<and> line_at line 7 = CHR ''T'' \<and> line_at line 8 = CHR ''h''
            \<and> line_at line 9 = CHR ''r'' \<and> line_at line 10 = CHR ''e'' \<and> line_at line 11 = CHR ''a''
            \<and> line_at line 12 = CHR ''d'' then CHR ''B''
      else if line_at line 0 = CHR ''C'' \<and> line_at line 1 = CHR ''a'' \<and> line_at line 2 = CHR ''n''
            \<and> line_at line 3 = CHR ''c'' \<and> line_at line 4 = CHR ''e'' \<and> line_at line 5 = CHR ''l''
           then CHR ''C''
      else if line_at line 0 = CHR ''P'' \<and> line_at line 1 = CHR ''a'' \<and> line_at line 2 = CHR ''u''
            \<and> line_at line 3 = CHR ''s'' \<and> line_at line 4 = CHR ''e'' \<and> line_at line 5 = CHR ''_''
            \<and> line_at line 6 = CHR ''T'' \<and> line_at line 7 = CHR ''h'' \<and> line_at line 8 = CHR ''r''
            \<and> line_at line 9 = CHR ''e'' \<and> line_at line 10 = CHR ''a'' \<and> line_at line 11 = CHR ''d''
           then CHR ''D''
      else if line_at line 0 = CHR ''R'' \<and> line_at line 1 = CHR ''e'' \<and> line_at line 2 = CHR ''s''
            \<and> line_at line 3 = CHR ''u'' \<and> line_at line 4 = CHR ''m'' \<and> line_at line 5 = CHR ''e''
            \<and> line_at line 6 = CHR ''_'' \<and> line_at line 7 = CHR ''T'' \<and> line_at line 8 = CHR ''h''
            \<and> line_at line 9 = CHR ''r'' \<and> line_at line 10 = CHR ''e'' \<and> line_at line 11 = CHR ''a''
            \<and> line_at line 12 = CHR ''d'' then CHR ''E''
      else CHR ''F'')"

subsection \<open>sscanf\<close>

text \<open>
  The four kinds of directive in the format strings of the source: white space (skips any
  white space of the input, also none), an ordinary character (must be the next character of
  the input), \<open>%d\<close> (skips white space, then an optional sign and at least one digit) and
  \<open>%n[^\n]\<close> (at least one and at most \<open>n\<close> characters other than newline, then a
  terminating zero byte). The scan stops at the first directive that fails. Its result is
  the converted values in order, and whether the input ended before a directive could be
  tried; \<open>sscanf\<close> returns their number, or \<open>EOF\<close> when there is none and the input had
  ended.

  \<open>%d\<close> stores a 32-bit \<open>int\<close>. The C library reads the digits as a \<open>long\<close> the way
  \<open>strtol\<close> does, which stops at the ends of the 64-bit range, and stores the low 32
  bits of that as a signed number. For a number that fits an \<open>int\<close> this is the number
  written.
\<close>

datatype directive = Ws | Lit char | Conv_d | Conv_not_newline nat

datatype conv = Int_val int | Str_val string

definition skip_ws :: "string \<Rightarrow> string" where
  "skip_ws inp = dropWhile isspace inp"

definition digit_val :: "char \<Rightarrow> int" where
  "digit_val c = int (of_char c) - 48"

definition decimal :: "string \<Rightarrow> int" where
  "decimal ds = foldl (\<lambda>acc c. acc * 10 + digit_val c) 0 ds"

definition strtol_range :: "int \<Rightarrow> int" where
  "strtol_range v = max (- 9223372036854775808) (min 9223372036854775807 v)"

definition store_int :: "int \<Rightarrow> int" where
  "store_int v = (v + 2147483648) mod 4294967296 - 2147483648"

definition scan_d :: "string \<Rightarrow> (int \<times> string) option" where
  "scan_d inp =
     (let s1 = skip_ws inp;
          (sign, s2) = (case s1 of
                          [] \<Rightarrow> (1, s1)
                        | c # cs \<Rightarrow> if c = CHR ''-'' then (- 1, cs)
                                    else if c = CHR ''+'' then (1, cs) else (1, s1));
          ds = takeWhile isdigit s2
      in if ds = [] then None
         else Some (store_int (strtol_range (sign * decimal ds)), dropWhile isdigit s2))"

fun scan_run :: "directive list \<Rightarrow> string \<Rightarrow> conv list \<Rightarrow> conv list \<times> bool" where
  "scan_run [] inp acc = (acc, False)"
| "scan_run (Ws # ds) inp acc = scan_run ds (skip_ws inp) acc"
| "scan_run (Lit c # ds) inp acc =
     (case inp of
        [] \<Rightarrow> (acc, True)
      | x # xs \<Rightarrow> if x = c then scan_run ds xs acc else (acc, False))"
| "scan_run (Conv_d # ds) inp acc =
     (case scan_d inp of
        None \<Rightarrow> (acc, skip_ws inp = [])
      | Some (v, rest) \<Rightarrow> scan_run ds rest (acc @ [Int_val v]))"
| "scan_run (Conv_not_newline n # ds) inp acc =
     (let m = take n (takeWhile (\<lambda>c. c \<noteq> CHR 0x0A) inp)
      in if m = [] then (acc, inp = [])
         else scan_run ds (drop (length m) inp) (acc @ [Str_val m]))"

definition EOF :: int where
  "EOF = - 1"

definition sscanf :: "string \<Rightarrow> directive list \<Rightarrow> int \<times> conv list" where
  "sscanf line fmt =
     (case scan_run fmt line [] of
        (vals, ended) \<Rightarrow> (if vals = [] \<and> ended then EOF else int (length vals), vals))"

text \<open>The five format strings, directive by directive.\<close>

definition fmt_A :: "directive list" where
  "fmt_A = [Conv_d, Ws] @ map Lit ''Message('' @ [Conv_d, Lit CHR '','', Ws, Conv_d, Lit CHR '')'', Ws,
            Conv_not_newline 128]"

definition fmt_B :: "directive list" where
  "fmt_B = map Lit ''Create_Thread:'' @ [Ws] @ map Lit ''MessageType('' @ [Conv_d, Lit CHR '')'']"

definition fmt_C :: "directive list" where
  "fmt_C = map Lit ''Cancel:'' @ [Ws] @ map Lit ''Message('' @ [Conv_d, Lit CHR '')'']"

definition fmt_D :: "directive list" where
  "fmt_D = map Lit ''Pause_Thread:'' @ [Ws] @ map Lit ''MessageType('' @ [Conv_d, Lit CHR '')'']"

definition fmt_E :: "directive list" where
  "fmt_E = map Lit ''Resume_Thread:'' @ [Ws] @ map Lit ''MessageType('' @ [Conv_d, Lit CHR '')'']"

subsection \<open>The main thread\<close>

text \<open>
  What one turn of the loop of \<open>main\<close> gets from outside: the block \<open>malloc\<close> returns
  (its contents are whatever the memory held; \<open>None\<close> is \<open>NULL\<close>), the three readings of
  \<open>time (NULL)\<close> (for \<open>alarm->time\<close>, for the line printed by \<open>alarm_insert\<close>, for the
  line printed by \<open>main\<close>), and the statuses of the mutex and condition calls.
\<close>

record env =
  malloc_result :: "alarm_t option"
  time_stamp :: int
  time_insert :: int
  time_print :: int
  lock_status :: int
  signal_status :: int
  unlock_status :: int

text \<open>
  Lock the mutex, set the expiry, insert, unlock: the same lines in all five cases (for
  instance 285 to 292).
\<close>

definition submit :: "env \<Rightarrow> alarm_t \<Rightarrow> state \<Rightarrow> event list \<times> (error + state)" where
  "submit e alarm s =
     (if lock_status e \<noteq> 0 then ([], Inl (Err_abort (lock_status e) ''Lock mutex''))
      else
        (case alarm_insert (time_insert e) (signal_status e)
                (alarm\<lparr>time := time_stamp e + seconds alarm\<rparr>) s of
           (ev, Inl err) \<Rightarrow> (ev, Inl err)
         | (ev, Inr s') \<Rightarrow>
             if unlock_status e \<noteq> 0 then (ev, Inl (Err_abort (unlock_status e) ''Unlock mutex''))
             else (ev, Inr s')))"

text \<open>
  The loops that check a control request against the list (for instance lines 344 to 350):
  \<open>while (next != NULL) { if (...) { printf (...); shouldProceed = false; break; } }\<close>.
  The body never moves \<open>next\<close>. The result is whether the loop was left through
  \<open>break\<close>; a loop that is never left has no result.
\<close>

partial_function (option) scan_loop :: "(alarm_t \<Rightarrow> bool) \<Rightarrow> alarm_t list \<Rightarrow> bool option" where
  "scan_loop P next =
     (case next of
        [] \<Rightarrow> Some False
      | n # _ \<Rightarrow> if P n then Some True else scan_loop P next)"

text \<open>
  Two such loops in a row, each starting at the head of the list. The result is the lines
  printed and \<open>shouldProceed\<close>.
\<close>

definition validation ::
  "(alarm_t \<Rightarrow> bool) \<Rightarrow> event \<Rightarrow> (alarm_t \<Rightarrow> bool) \<Rightarrow> event \<Rightarrow> alarm_t list
     \<Rightarrow> (event list \<times> bool) option" where
  "validation P1 e1 P2 e2 l =
     (case scan_loop P1 l of
        None \<Rightarrow> None
      | Some hit1 \<Rightarrow>
          (case scan_loop P2 l of
             None \<Rightarrow> None
           | Some hit2 \<Rightarrow>
               Some ((if hit1 then [e1] else []) @ (if hit2 then [e2] else []),
                     \<not> hit1 \<and> \<not> hit2)))"

definition validate_B :: "alarm_t \<Rightarrow> alarm_t list \<Rightarrow> (event list \<times> bool) option" where
  "validate_B alarm =
     validation
       (\<lambda>next. type next = CHR ''A'' \<and> messageType next \<noteq> messageType alarm)
       (Printf ''Type B Alarm Request Error: No Alarm Request With Message Type %d!''
          [I (messageType alarm)])
       (\<lambda>next. type next = CHR ''B'' \<and> messageType next = messageType alarm)
       (Printf ''Error: More Than One Type B Alarm Request With Message Type %d!''
          [I (messageType alarm)])"

definition validate_C :: "alarm_t \<Rightarrow> alarm_t list \<Rightarrow> (event list \<times> bool) option" where
  "validate_C alarm =
     validation
       (\<lambda>next. type next = CHR ''A'' \<and> messageNumber next \<noteq> messageNumber alarm)
       (Printf ''Error: No Alarm Request With Message Number %d to Cancel!''
          [I (messageNumber alarm)])
       (\<lambda>next. type next = CHR ''B'' \<and> messageNumber next = messageNumber alarm)
       (Printf ''Error: More Than One Request to Cancel Alarm Request With Message Number %d!''
          [I (messageNumber alarm)])"

definition validate_D :: "alarm_t \<Rightarrow> alarm_t list \<Rightarrow> (event list \<times> bool) option" where
  "validate_D alarm =
     validation
       (\<lambda>next. type next = CHR ''A'' \<and> messageType next \<noteq> messageType alarm)
       (Printf ''Type D Alarm Request Error: No Alarm Request With Message Type %d!''
          [I (messageType alarm)])
       (\<lambda>next. type next = CHR ''B'' \<and> messageNumber next = messageNumber alarm)
       (Printf ''Error: More Than One Type D Alarm Request With Message Type %d!''
          [I (messageType alarm)])"

definition validate_E :: "alarm_t \<Rightarrow> alarm_t list \<Rightarrow> (event list \<times> bool) option" where
  "validate_E alarm =
     validation
       (\<lambda>next. type next = CHR ''D'' \<and> messageType next \<noteq> messageType alarm)
       (Printf ''Type E Alarm Request Error: No Type D Pause Alarm Request With Message Type %d!''
          [I (messageType alarm)])
       (\<lambda>next. type next = CHR ''E'' \<and> messageNumber next = messageNumber alarm)
       (Printf ''Error: More Than One Type E Alarm Request With Message Type %d!''
          [I (messageType alarm)])"

text \<open>
  The body of a control case once its test has let it in (for instance lines 338 to 373):
  validate, then insert and print the lines of \<open>accepted\<close>, or free the request.
\<close>

definition control_request ::
  "env \<Rightarrow> state \<Rightarrow> alarm_t \<Rightarrow> (alarm_t list \<Rightarrow> (event list \<times> bool) option) \<Rightarrow> event list
     \<Rightarrow> (event list \<times> (error + state)) option" where
  "control_request e s alarm validate accepted =
     (case validate (alarm_list s) of
        None \<Rightarrow> None
      | Some (ev, shouldProceed) \<Rightarrow>
          if shouldProceed then
            (case submit e alarm s of
               (ev', Inl err) \<Rightarrow> Some (ev @ ev', Inl err)
             | (ev', Inr s') \<Rightarrow> Some (ev @ ev' @ accepted, Inr s'))
          else Some (ev @ [Free alarm], Inr s))"

text \<open>
  The fields \<open>sscanf\<close> has written for the format of case \<open>'A'\<close> when it stops, and
  whether a string it stored does not fit the 128 bytes of \<open>message\<close> together with its
  terminating zero byte.
\<close>

fun store_A :: "conv list \<Rightarrow> alarm_t \<Rightarrow> alarm_t" where
  "store_A (Int_val a # Int_val b # Int_val c # Str_val m # _) al =
     al\<lparr>seconds := a, messageType := b, messageNumber := c, message := m\<rparr>"
| "store_A (Int_val a # Int_val b # Int_val c # _) al =
     al\<lparr>seconds := a, messageType := b, messageNumber := c\<rparr>"
| "store_A (Int_val a # Int_val b # _) al = al\<lparr>seconds := a, messageType := b\<rparr>"
| "store_A (Int_val a # _) al = al\<lparr>seconds := a\<rparr>"
| "store_A _ al = al"

fun overruns :: "conv \<Rightarrow> bool" where
  "overruns (Str_val m) \<longleftrightarrow> length m + 1 > 128"
| "overruns (Int_val _) \<longleftrightarrow> False"

definition prompt :: event where
  "prompt = Printf ''Alarm> '' []"

text \<open>
  One turn of the loop of \<open>main\<close> (lines 262 to 461) on the shared state \<open>s\<close> and the
  input \<open>inp\<close> still to be read, with the alarm thread not running meanwhile. The result
  is the trace and either the way the process ended or the new state and the input left;
  \<open>None\<close> when the turn never ends.

  Each control case runs its body when \<open>sscanf\<close> returns less than 1, as the source has
  it, and does nothing otherwise.
\<close>

definition main_turn ::
  "env \<Rightarrow> state \<Rightarrow> string \<Rightarrow> (event list \<times> (error + state \<times> string)) option" where
  "main_turn e s inp =
     (case fgets 128 inp of
        None \<Rightarrow> Some ([prompt], Inl (Exit 0))
      | Some (buf, rest) \<Rightarrow>
          let line = c_string buf in
          if length line \<le> 1 then Some ([prompt], Inr (s, rest))
          else
            let t = typeFinder line;
                finish = (\<lambda>r. case r of
                            None \<Rightarrow> None
                          | Some (ev, Inl err) \<Rightarrow> Some (prompt # ev, Inl err)
                          | Some (ev, Inr s') \<Rightarrow> Some (prompt # ev, Inr (s', rest)))
            in
            if t = CHR ''A'' then
              (case malloc_result e of
                 None \<Rightarrow> Some ([prompt], Inl (Errno_abort ''Allocate alarm''))
               | Some fresh \<Rightarrow>
                   (case sscanf line fmt_A of (ret, vals) \<Rightarrow>
                      if list_ex overruns vals then Some ([prompt], Inl Buffer_overrun)
                      else if ret < 4 then
                        Some ([prompt, Fprintf_stderr ''Bad command\<newline>'' [],
                               Free (store_A vals fresh)], Inr (s, rest))
                      else
                        finish (Some (submit e ((store_A vals fresh)\<lparr>type := CHR ''A''\<rparr>) s))))
            else if t = CHR ''B'' then
              (case malloc_result e of
                 None \<Rightarrow> Some ([prompt], Inl Null_deref)
               | Some fresh \<Rightarrow>
                   if fst (sscanf line fmt_B) < 1 then
                     (let alarm = fresh\<lparr>type := CHR ''B''\<rparr>
                      in finish (control_request e s alarm (validate_B alarm) []))
                   else Some ([prompt], Inr (s, rest)))
            else if t = CHR ''C'' then
              (case malloc_result e of
                 None \<Rightarrow> Some ([prompt], Inl Null_deref)
               | Some fresh \<Rightarrow>
                   if fst (sscanf line fmt_C) < 1 then
                     (let alarm = fresh\<lparr>type := CHR ''C''\<rparr>
                      in finish (control_request e s alarm (validate_C alarm)
                           [Printf ''Type C Cancel Alarm Request With Message Number %d Inserted Into Alarm List at %lld: %c''
                              [I (messageNumber alarm), I (time_print e), C (type alarm)]]))
                   else Some ([prompt], Inr (s, rest)))
            else if t = CHR ''D'' then
              (case malloc_result e of
                 None \<Rightarrow> Some ([prompt], Inl Null_deref)
               | Some fresh \<Rightarrow>
                   if fst (sscanf line fmt_D) < 1 then
                     (let alarm = fresh\<lparr>type := CHR ''D''\<rparr>
                      in finish (control_request e s alarm (validate_D alarm)
                           [Printf ''Type D Pause Thread Alarm Request For Message Type %d Inserted Into Alarm List at %lld!''
                              [I (messageType alarm), I (time_print e)]]))
                   else Some ([prompt], Inr (s, rest)))
            else if t = CHR ''E'' then
              (case malloc_result e of
                 None \<Rightarrow> Some ([prompt], Inl Null_deref)
               | Some fresh \<Rightarrow>
                   if fst (sscanf line fmt_E) < 1 then
                     (let alarm = fresh\<lparr>type := CHR ''E''\<rparr>
                      in finish (control_request e s alarm (validate_E alarm)
                           [Printf ''Type E Resume Thread Alarm Request For Message Type %d Inserted Into Alarm List at %lld!''
                              [I (messageType alarm), I (time_print e)]]))
                   else Some ([prompt], Inr (s, rest)))
            else Some ([prompt, Printf ''bad command\<newline>'' []], Inr (s, rest)))"

subsection \<open>Sample requests and environments\<close>

definition schedule_req :: "int \<Rightarrow> int \<Rightarrow> int \<Rightarrow> int \<Rightarrow> string \<Rightarrow> alarm_t" where
  "schedule_req secs mtype mnum t msg =
     \<lparr>type = CHR ''A'', seconds = secs, messageType = mtype, messageNumber = mnum, time = t,
      message = msg\<rparr>"

text \<open>A block of memory that holds zero bytes only, and an environment where every call succeeds.\<close>

definition zero_block :: alarm_t where
  "zero_block =
     \<lparr>type = CHR 0x00, seconds = 0, messageType = 0, messageNumber = 0, time = 0, message = []\<rparr>"

definition sample_env :: env where
  "sample_env =
     \<lparr>malloc_result = Some zero_block, time_stamp = 100, time_insert = 100, time_print = 100,
      lock_status = 0, signal_status = 0, unlock_status = 0\<rparr>"

text \<open>
  The outcome of a turn of \<open>main\<close> that started in state \<open>s\<close> respects the size of
  \<open>message\<close>: nothing was stored behind its end, and every new entry of type \<open>'A'\<close>
  carries at most 127 characters.
\<close>

definition message_fits :: "state \<Rightarrow> error + state \<times> string \<Rightarrow> bool" where
  "message_fits s r \<longleftrightarrow>
     r \<noteq> Inl Buffer_overrun
     \<and> (\<forall>s' rest alarm. r = Inr (s', rest) \<and> alarm \<in> set (alarm_list s') \<and> alarm \<notin> set (alarm_list s)
           \<and> type alarm = CHR ''A'' \<longrightarrow> length (message alarm) \<le> 127)"

section \<open>Properties of alarm\_insert\<close>

subsection \<open>Where the new alarm goes\<close>

lemma insert_scan_split:
  "fst (insert_scan tnow alarm l) = l \<or>
   (\<exists>pre post. l = pre @ post \<and> fst (insert_scan tnow alarm l) = pre @ alarm # post
      \<and> (\<forall>x\<in>set pre. time x < time alarm) \<and> (\<forall>y. post = y # tl post \<longrightarrow> time alarm \<le> time y))"
proof (induction l)
  case Nil
  then show ?case by simp
next
  case (Cons n rest)
  show ?case
  proof (cases "type n = CHR ''A'' \<and> messageNumber n = messageNumber alarm")
    case True
    then show ?thesis by simp
  next
    case nomatch: False
    show ?thesis
    proof (cases "time n \<ge> time alarm")
      case True
      with nomatch have "fst (insert_scan tnow alarm (n # rest)) = [] @ alarm # (n # rest)"
        by simp
      moreover have "n # rest = [] @ (n # rest)" by simp
      ultimately show ?thesis using True
        by (metis empty_iff list.inject set_empty2)
    next
      case False
      with nomatch have step: "fst (insert_scan tnow alarm (n # rest)) = n # fst (insert_scan tnow alarm rest)"
        by (auto simp: split_def)
      from Cons.IH show ?thesis
      proof
        assume "fst (insert_scan tnow alarm rest) = rest"
        with step show ?thesis by simp
      next
        assume "\<exists>pre post. rest = pre @ post \<and> fst (insert_scan tnow alarm rest) = pre @ alarm # post
          \<and> (\<forall>x\<in>set pre. time x < time alarm) \<and> (\<forall>y. post = y # tl post \<longrightarrow> time alarm \<le> time y)"
        then obtain pre post where pp: "rest = pre @ post"
          "fst (insert_scan tnow alarm rest) = pre @ alarm # post"
          "\<forall>x\<in>set pre. time x < time alarm" "\<forall>y. post = y # tl post \<longrightarrow> time alarm \<le> time y"
          by blast
        have "n # rest = (n # pre) @ post" using pp by simp
        moreover have "fst (insert_scan tnow alarm (n # rest)) = (n # pre) @ alarm # post"
          using step pp by simp
        moreover have "\<forall>x\<in>set (n # pre). time x < time alarm" using pp False by auto
        ultimately show ?thesis using pp(4) by blast
      qed
    qed
  qed
qed

lemma insert_scan_sorted:
  "sorted (map time l) \<Longrightarrow> sorted (map time (fst (insert_scan tnow alarm l)))"
proof -
  assume srt: "sorted (map time l)"
  from insert_scan_split [of tnow alarm l] show ?thesis
  proof
    assume "fst (insert_scan tnow alarm l) = l" with srt show ?thesis by simp
  next
    assume "\<exists>pre post. l = pre @ post \<and> fst (insert_scan tnow alarm l) = pre @ alarm # post
      \<and> (\<forall>x\<in>set pre. time x < time alarm) \<and> (\<forall>y. post = y # tl post \<longrightarrow> time alarm \<le> time y)"
    then obtain pre post where pp: "l = pre @ post"
          "fst (insert_scan tnow alarm l) = pre @ alarm # post"
          "\<forall>x\<in>set pre. time x < time alarm" "\<forall>y. post = y # tl post \<longrightarrow> time alarm \<le> time y"
      by blast
    have sp: "sorted (map time pre)" "sorted (map time post)" using srt pp(1) by (auto simp: sorted_append)
    have "\<forall>y\<in>set post. time alarm \<le> time y"
    proof (cases post)
      case Nil then show ?thesis by simp
    next
      case (Cons y ys)
      then have "time alarm \<le> time y" using pp(4) by simp
      moreover have "\<forall>z\<in>set ys. time y \<le> time z" using sp(2) Cons by auto
      ultimately show ?thesis using Cons by auto
    qed
    then show ?thesis using pp sp by (fastforce simp: sorted_append)
  qed
qed

lemma insert_scan_part0_split:
  "\<exists>pre post. l = pre @ post \<and> insert_scan_part0 alarm l = pre @ alarm # post
      \<and> (\<forall>x\<in>set pre. time x < time alarm) \<and> (\<forall>y. post = y # tl post \<longrightarrow> time alarm \<le> time y)"
proof (induction l)
  case Nil
  then show ?case by simp
next
  case (Cons n rest)
  show ?case
  proof (cases "time n \<ge> time alarm")
    case True
    then have "insert_scan_part0 alarm (n # rest) = [] @ alarm # (n # rest)" by simp
    moreover have "n # rest = [] @ (n # rest)" by simp
    ultimately show ?thesis using True
      by (metis empty_iff list.inject set_empty2)
  next
    case False
    from Cons.IH obtain pre post where pp: "rest = pre @ post"
          "insert_scan_part0 alarm rest = pre @ alarm # post"
          "\<forall>x\<in>set pre. time x < time alarm" "\<forall>y. post = y # tl post \<longrightarrow> time alarm \<le> time y"
      by blast
    have "n # rest = (n # pre) @ post" using pp by simp
    moreover have "insert_scan_part0 alarm (n # rest) = (n # pre) @ alarm # post"
      using False pp by simp
    moreover have "\<forall>x\<in>set (n # pre). time x < time alarm" using pp False by auto
    ultimately show ?thesis using pp(4) by blast
  qed
qed

lemma alarm_insert_list:
  "alarm_insert tnow st a s = (ev, Inr s') \<Longrightarrow> alarm_list s' = fst (insert_scan tnow a (alarm_list s))"
  by (auto simp: alarm_insert_def split: prod.splits if_splits)

lemma alarm_insert_part0_list:
  "alarm_insert_part0 st a s = (ev, Inr s') \<Longrightarrow> alarm_list s' = insert_scan_part0 a (alarm_list s)"
  by (auto simp: alarm_insert_part0_def Let_def split: if_splits)

lemma insert_scan_part0_set: "set (insert_scan_part0 alarm l) = insert alarm (set l)"
  by (induction l) auto

lemma insert_scan_part0_sorted:
  "sorted (map time l) \<Longrightarrow> sorted (map time (insert_scan_part0 alarm l))"
  by (induction l) (auto simp: insert_scan_part0_set)

lemma sorted_head_earliest: "time_sorted l \<Longrightarrow> head_earliest l"
  by (cases l) (auto simp: time_sorted_def head_earliest_def list_all_iff)

lemma reachable_time_sorted: "reachable l \<Longrightarrow> time_sorted l"
proof (induction rule: reachable.induct)
  case reachable_empty
  show ?case by (simp add: time_sorted_def)
next
  case (reachable_insert s tnow sig_status alarm ev s')
  then show ?case
    by (simp add: time_sorted_def alarm_insert_list insert_scan_sorted)
qed

lemma reachable_part0_time_sorted: "reachable_part0 l \<Longrightarrow> time_sorted l"
proof (induction rule: reachable_part0.induct)
  case reachable_part0_empty
  show ?case by (simp add: time_sorted_def)
next
  case (reachable_part0_insert s sig_status alarm ev s')
  then show ?case
    by (simp add: time_sorted_def alarm_insert_part0_list insert_scan_part0_sorted)
qed

subsection \<open>The list stays sorted\<close>

text \<open>
  Claim C2. Every list that calls of \<open>alarm_insert\<close> build from the empty list is
  non-decreasing in \<open>time\<close>, and its head is an entry with the earliest expiry. This holds
  for the \<open>alarm_insert\<close> of both source files, whatever \<open>current_alarm\<close> is at each
  call. The exception the claim allows after a replacement of a Schedule request is never
  needed: in that branch the list is not changed at all.
\<close>

theorem reachable_sorted:
  "reachable l \<or> reachable_part0 l \<Longrightarrow> time_sorted l \<and> head_earliest l"
  using reachable_time_sorted reachable_part0_time_sorted sorted_head_earliest by blast

theorem reachable_sorted_witness:
  "reachable [schedule_req 5 1 1 105 ''a'', schedule_req 9 1 2 109 ''b'']
   \<and> time_sorted [schedule_req 5 1 1 105 ''a'', schedule_req 9 1 2 109 ''b'']
   \<and> head_earliest [schedule_req 5 1 1 105 ''a'', schedule_req 9 1 2 109 ''b'']"
proof -
  let ?a = "schedule_req 5 1 1 105 ''a''" and ?b = "schedule_req 9 1 2 109 ''b''"
  have "alarm_insert 100 0 ?b \<lparr>alarm_list = [], current_alarm = 0\<rparr>
          = ([Cond_signal], Inr \<lparr>alarm_list = [?b], current_alarm = 109\<rparr>)"
    by (simp add: alarm_insert_def wake_def schedule_req_def)
  from reachable_insert [of "\<lparr>alarm_list = [], current_alarm = 0\<rparr>", OF _ this]
  have r1: "reachable [?b]" by (simp add: reachable_empty)
  have "alarm_insert 100 0 ?a \<lparr>alarm_list = [?b], current_alarm = 109\<rparr>
          = ([inserted_line 100 ?a, Cond_signal],
             Inr \<lparr>alarm_list = [?a, ?b], current_alarm = 105\<rparr>)"
    by (simp add: alarm_insert_def wake_def schedule_req_def)
  from reachable_insert [of "\<lparr>alarm_list = [?b], current_alarm = 109\<rparr>", OF _ this] r1
  have r2: "reachable [?a, ?b]" by simp
  with reachable_sorted [of "[?a, ?b]"] show ?thesis by simp
qed

subsection \<open>The wake decision\<close>

lemma insert_scan_no_signal: "count_list (snd (insert_scan tnow alarm l)) Cond_signal = 0"
  by (induction l) (auto simp: split_def replacement_line_def inserted_line_def)

text \<open>
  Claim C6. \<open>alarm_insert\<close> calls \<open>pthread_cond_signal\<close> exactly once when
  \<open>current_alarm\<close> is 0 or the expiry of the inserted request is strictly earlier than
  \<open>current_alarm\<close>, and not at all otherwise. When it returns, \<open>current_alarm\<close> is the
  expiry of the request in the first case and unchanged in the second. It returns unless
  the signal was due and \<open>pthread_cond_signal\<close> failed, which aborts the process.
\<close>

theorem alarm_insert_wake_decision:
  "alarm_insert tnow sig_status alarm s = (ev, r) \<Longrightarrow>
     count_list ev Cond_signal = (if current_alarm s = 0 \<or> time alarm < current_alarm s then 1 else 0)
     \<and> count_list ev Cond_signal \<le> 1
     \<and> (case r of
          Inr s' \<Rightarrow> current_alarm s' =
                     (if current_alarm s = 0 \<or> time alarm < current_alarm s then time alarm
                      else current_alarm s)
        | Inl err \<Rightarrow> (current_alarm s = 0 \<or> time alarm < current_alarm s) \<and> sig_status \<noteq> 0
                      \<and> err = Err_abort sig_status ''Signal cond'')
     \<and> (sig_status = 0 \<longrightarrow> (\<exists>s'. r = Inr s'))"
proof -
  assume res: "alarm_insert tnow sig_status alarm s = (ev, r)"
  obtain l ev0 where scan: "insert_scan tnow alarm (alarm_list s) = (l, ev0)"
    by (cases "insert_scan tnow alarm (alarm_list s)")
  have c0: "count_list ev0 Cond_signal = 0"
    using insert_scan_no_signal [of tnow alarm "alarm_list s"] scan by simp
  show ?thesis
  proof (cases "current_alarm s = 0 \<or> time alarm < current_alarm s")
    case True
    then have w: "wake alarm (current_alarm s)" by (simp add: wake_def)
    show ?thesis
    proof (cases "sig_status = 0")
      case True
      with res scan w have "ev = ev0 @ [Cond_signal]"
        "r = Inr \<lparr>alarm_list = l, current_alarm = time alarm\<rparr>"
        by (simp_all add: alarm_insert_def)
      with c0 w True show ?thesis by (simp add: wake_def)
    next
      case False
      with res scan w have "ev = ev0 @ [Cond_signal]"
        "r = Inl (Err_abort sig_status ''Signal cond'')"
        by (simp_all add: alarm_insert_def)
      with c0 w False show ?thesis by (simp add: wake_def)
    qed
  next
    case False
    then have w: "\<not> wake alarm (current_alarm s)" by (simp add: wake_def)
    with res scan have "ev = ev0"
      "r = Inr \<lparr>alarm_list = l, current_alarm = current_alarm s\<rparr>"
      by (simp_all add: alarm_insert_def)
    with c0 w show ?thesis by (simp add: wake_def)
  qed
qed

theorem alarm_insert_wake_decision_witness:
  "alarm_insert 100 0 (schedule_req 5 1 1 105 ''a'') \<lparr>alarm_list = [], current_alarm = 0\<rparr>
     = ([Cond_signal], Inr \<lparr>alarm_list = [schedule_req 5 1 1 105 ''a''], current_alarm = 105\<rparr>)
   \<and> count_list [Cond_signal] Cond_signal = 1"
proof -
  have e: "alarm_insert 100 0 (schedule_req 5 1 1 105 ''a'') \<lparr>alarm_list = [], current_alarm = 0\<rparr>
     = ([Cond_signal], Inr \<lparr>alarm_list = [schedule_req 5 1 1 105 ''a''], current_alarm = 105\<rparr>)"
    by (simp add: alarm_insert_def wake_def schedule_req_def)
  from alarm_insert_wake_decision [OF e] e show ?thesis by simp
qed

text \<open>The \<open>alarm_insert\<close> of the other file takes the same decision.\<close>

lemma alarm_insert_part0_wake_decision:
  "alarm_insert_part0 sig_status alarm s = (ev, r) \<Longrightarrow>
     count_list ev Cond_signal = (if current_alarm s = 0 \<or> time alarm < current_alarm s then 1 else 0)
     \<and> count_list ev Cond_signal \<le> 1
     \<and> (case r of
          Inr s' \<Rightarrow> current_alarm s' =
                     (if current_alarm s = 0 \<or> time alarm < current_alarm s then time alarm
                      else current_alarm s)
        | Inl err \<Rightarrow> (current_alarm s = 0 \<or> time alarm < current_alarm s) \<and> sig_status \<noteq> 0
                      \<and> err = Err_abort sig_status ''Signal cond'')
     \<and> (sig_status = 0 \<longrightarrow> (\<exists>s'. r = Inr s'))"
  by (auto simp: alarm_insert_part0_def wake_def Let_def split: if_splits)

subsection \<open>A request with the message number of a queued Schedule request\<close>

lemma insert_scan_subseq: "subseq l (fst (insert_scan tnow alarm l))"
  by (induction l) (auto simp: split_def)

lemma insert_scan_at_match:
  "type n = CHR ''A'' \<Longrightarrow> messageNumber n = messageNumber alarm \<Longrightarrow> \<forall>x\<in>set pre. time x < time alarm
    \<Longrightarrow> insert_scan tnow alarm (pre @ n # post) = (pre @ n # post, [replacement_line tnow alarm])"
  by (induction pre) auto

text \<open>
  Claim C1 says that a Schedule request with the message number of a queued Schedule
  request takes the place of the queued one. The source prints the replacement line and
  then links nothing: the queued request with its old data stays, the new one is not in the
  list. Here the alarm thread waits for an alarm due at 103, the list holds request 7 due
  at 105, and a new request 7 due at 109 is inserted.
\<close>

theorem alarm_insert_same_number_keeps_old:
  "alarm_insert 100 0 (schedule_req 9 1 7 109 ''new'')
     \<lparr>alarm_list = [schedule_req 5 1 7 105 ''old''], current_alarm = 103\<rparr>
   = ([replacement_line 100 (schedule_req 9 1 7 109 ''new'')],
      Inr \<lparr>alarm_list = [schedule_req 5 1 7 105 ''old''], current_alarm = 103\<rparr>)"
  by (simp add: alarm_insert_def wake_def schedule_req_def)

text \<open>
  Claim C10 as stated fails: a queued Schedule request with the message number of the new
  request does not always stop the scan. Here the first entry has another number and expires
  later than the new request, so the new request is linked in before it, and the list then
  holds two requests with number 7.
\<close>

theorem alarm_insert_changes_list_despite_match:
  "alarm_insert 100 0 (schedule_req 3 1 7 103 ''new'')
     \<lparr>alarm_list = [schedule_req 5 1 1 105 ''x'', schedule_req 9 1 7 109 ''old''], current_alarm = 102\<rparr>
   = ([inserted_line 100 (schedule_req 3 1 7 103 ''new'')],
      Inr \<lparr>alarm_list = [schedule_req 3 1 7 103 ''new'', schedule_req 5 1 1 105 ''x'',
                          schedule_req 9 1 7 109 ''old''], current_alarm = 102\<rparr>)
   \<and> type (schedule_req 3 1 7 103 ''new'') = CHR ''A''
   \<and> type (schedule_req 9 1 7 109 ''old'') = CHR ''A''
   \<and> messageNumber (schedule_req 9 1 7 109 ''old'') = messageNumber (schedule_req 3 1 7 103 ''new'')
   \<and> [schedule_req 3 1 7 103 ''new'', schedule_req 5 1 1 105 ''x'', schedule_req 9 1 7 109 ''old'']
        \<noteq> [schedule_req 5 1 1 105 ''x'', schedule_req 9 1 7 109 ''old'']"
  by (simp add: alarm_insert_def wake_def schedule_req_def)

text \<open>
  Claim C10, amended. \<open>alarm_insert\<close> never takes an entry off the list: the old list is
  a subsequence of the new one. When the list has an entry of type \<open>'A'\<close> with the
  message number of the new request, and every entry before it expires strictly earlier
  than the new request, the list is left as it is, the replacement line is the only line
  printed, and the wake decision is taken on the expiry of the new request.
\<close>

theorem alarm_insert_keeps_entries:
  "alarm_insert tnow sig_status alarm s = (ev, r) \<Longrightarrow>
     (\<forall>s'. r = Inr s' \<longrightarrow> subseq (alarm_list s) (alarm_list s'))
     \<and> (alarm_list s = pre @ n # post \<and> type n = CHR ''A'' \<and> messageNumber n = messageNumber alarm
          \<and> (\<forall>x\<in>set pre. time x < time alarm) \<longrightarrow>
        ev = replacement_line tnow alarm #
               (if current_alarm s = 0 \<or> time alarm < current_alarm s then [Cond_signal] else [])
        \<and> (\<forall>s'. r = Inr s' \<longrightarrow>
              alarm_list s' = alarm_list s
              \<and> current_alarm s' =
                  (if current_alarm s = 0 \<or> time alarm < current_alarm s then time alarm
                   else current_alarm s)))"
proof -
  assume res: "alarm_insert tnow sig_status alarm s = (ev, r)"
  have keep: "\<forall>s'. r = Inr s' \<longrightarrow> subseq (alarm_list s) (alarm_list s')"
    using res insert_scan_subseq [of "alarm_list s" tnow alarm]
    by (auto simp: alarm_insert_def split_def split: if_splits)
  have same: "ev = replacement_line tnow alarm #
               (if current_alarm s = 0 \<or> time alarm < current_alarm s then [Cond_signal] else [])
        \<and> (\<forall>s'. r = Inr s' \<longrightarrow>
              alarm_list s' = alarm_list s
              \<and> current_alarm s' =
                  (if current_alarm s = 0 \<or> time alarm < current_alarm s then time alarm
                   else current_alarm s))"
    if m: "alarm_list s = pre @ n # post" "type n = CHR ''A''" "messageNumber n = messageNumber alarm"
       "\<forall>x\<in>set pre. time x < time alarm"
  proof -
    have "insert_scan tnow alarm (alarm_list s) = (alarm_list s, [replacement_line tnow alarm])"
      using insert_scan_at_match [OF m(2) m(3) m(4)] m(1) by simp
    with res show ?thesis
      by (auto simp: alarm_insert_def wake_def split: if_splits)
  qed
  from keep same show ?thesis by blast
qed

theorem alarm_insert_keeps_entries_witness:
  "alarm_insert 100 0 (schedule_req 9 1 7 109 ''new'')
     \<lparr>alarm_list = [schedule_req 2 1 1 102 ''x'', schedule_req 5 1 7 105 ''old''], current_alarm = 0\<rparr>
   = ([replacement_line 100 (schedule_req 9 1 7 109 ''new''), Cond_signal],
      Inr \<lparr>alarm_list = [schedule_req 2 1 1 102 ''x'', schedule_req 5 1 7 105 ''old''],
           current_alarm = 109\<rparr>)
   \<and> subseq [schedule_req 2 1 1 102 ''x'', schedule_req 5 1 7 105 ''old'']
        [schedule_req 2 1 1 102 ''x'', schedule_req 5 1 7 105 ''old'']"
proof -
  let ?new = "schedule_req 9 1 7 109 ''new''"
  let ?x = "schedule_req 2 1 1 102 ''x''" and ?old = "schedule_req 5 1 7 105 ''old''"
  obtain ev r where e: "alarm_insert 100 0 ?new \<lparr>alarm_list = [?x, ?old], current_alarm = 0\<rparr> = (ev, r)"
    by (cases "alarm_insert 100 0 ?new \<lparr>alarm_list = [?x, ?old], current_alarm = 0\<rparr>")
  have ok: "r = Inr \<lparr>alarm_list = [?x, ?old], current_alarm = 109\<rparr>"
    using e by (simp add: alarm_insert_def wake_def schedule_req_def)
  from alarm_insert_keeps_entries [OF e, of "[?x]" ?old "[]"] ok e
  show ?thesis by (simp add: schedule_req_def)
qed

section \<open>Properties of the alarm thread\<close>

lemma timed_wait_early:
  "timed_wait alarm s ws = Some (Inr (False, s2, ws2)) \<Longrightarrow> current_alarm s2 \<noteq> time alarm"
proof (induction alarm s ws rule: timed_wait.induct)
  case (1 alarm s ws)
  show ?case
  proof (cases "current_alarm s = time alarm")
    case False
    with "1.prems" show ?thesis by simp
  next
    case True
    show ?thesis
    proof (cases ws)
      case Nil
      with True "1.prems" show ?thesis by simp
    next
      case (Cons w ws')
      obtain status s' where w: "w = (status, s')" by (cases w)
      from True Cons w "1.prems" have st: "status \<noteq> ETIMEDOUT" "\<not> status \<noteq> 0"
        by (auto split: if_splits)
      with True Cons w "1.prems" have "timed_wait alarm s' ws' = Some (Inr (False, s2, ws2))"
        by simp
      with "1.IH" [OF True Cons _ st] w show ?thesis by simp
    qed
  qed
qed

lemma insert_scan_no_fire: "set (snd (insert_scan tnow alarm l)) \<inter> set (fire a) = {}"
  by (induction l) (auto simp: split_def fire_def replacement_line_def inserted_line_def)

lemma alarm_insert_no_fire: "set (fst (alarm_insert tnow sig_status alarm s)) \<inter> set (fire a) = {}"
  using insert_scan_no_fire [of tnow alarm "alarm_list s" a]
  by (auto simp: alarm_insert_def split_def fire_def)

lemma alarm_insert_part0_no_fire: "set (fst (alarm_insert_part0 sig_status alarm s)) \<inter> set (fire a) = {}"
  by (auto simp: alarm_insert_part0_def Let_def fire_def)

text \<open>
  The control flow of a turn. Let the alarm thread have popped \<open>alarm\<close>, with
  \<open>alarm_insert\<close> of either source file. If the alarm is not yet due and the timed wait
  ends without a timeout, then
  \<open>current_alarm\<close> is no longer the expiry of the alarm, the turn ends with exactly what
  \<open>alarm_insert\<close> does with the popped alarm in the state found on waking, and neither
  the line of the alarm is printed nor the alarm freed. Whenever a turn does print the line
  or free the alarm, it does both and nothing else, and the alarm was due when it was popped
  or the timed wait reported a timeout.
\<close>

lemma alarm_thread_calls_insert_on_early_wake:
  assumes ins: "ins = alarm_insert tnow sig_status \<or> ins = alarm_insert_part0 sig_status"
    and pop: "wait_and_pop (s\<lparr>current_alarm := 0\<rparr>) ws = Some (Inr (alarm, s1, ws1))"
  shows "(time alarm > now
          \<and> timed_wait alarm (s1\<lparr>current_alarm := time alarm\<rparr>) ws1 = Some (Inr (False, s2, ws2))
         \<longrightarrow> current_alarm s2 \<noteq> time alarm
             \<and> alarm_thread_turn ins now s ws =
                 Some (case ins alarm s2 of
                         (ev, Inl err) \<Rightarrow> (ev, Inl err)
                       | (ev, Inr s3) \<Rightarrow> (ev, Inr (s3, ws2)))
             \<and> set (fst (ins alarm s2)) \<inter> set (fire alarm) = {})
       \<and> (alarm_thread_turn ins now s ws = Some (ev, r) \<and> set ev \<inter> set (fire alarm) \<noteq> {}
         \<longrightarrow> ev = fire alarm
             \<and> (time alarm \<le> now
                \<or> (\<exists>s' ws'. timed_wait alarm (s1\<lparr>current_alarm := time alarm\<rparr>) ws1
                              = Some (Inr (True, s', ws')))))"
proof -
  have nofire: "set (fst (ins a s')) \<inter> set (fire alarm) = {}" for a s'
    using ins alarm_insert_no_fire alarm_insert_part0_no_fire by metis
  have early: "current_alarm s2 \<noteq> time alarm
             \<and> alarm_thread_turn ins now s ws =
                 Some (case ins alarm s2 of
                         (ev, Inl err) \<Rightarrow> (ev, Inl err)
                       | (ev, Inr s3) \<Rightarrow> (ev, Inr (s3, ws2)))
             \<and> set (fst (ins alarm s2)) \<inter> set (fire alarm) = {}"
    if "time alarm > now"
      and tw: "timed_wait alarm (s1\<lparr>current_alarm := time alarm\<rparr>) ws1 = Some (Inr (False, s2, ws2))"
  proof -
    have "alarm_thread_turn ins now s ws =
                 Some (case ins alarm s2 of
                         (ev, Inl err) \<Rightarrow> (ev, Inl err)
                       | (ev, Inr s3) \<Rightarrow> (ev, Inr (s3, ws2)))"
      unfolding alarm_thread_turn_def using pop that
      by (simp split: prod.splits sum.splits)
    with timed_wait_early [OF tw] nofire show ?thesis by simp
  qed
  have fired: "ev = fire alarm
             \<and> (time alarm \<le> now
                \<or> (\<exists>s' ws'. timed_wait alarm (s1\<lparr>current_alarm := time alarm\<rparr>) ws1
                              = Some (Inr (True, s', ws'))))"
    if turn: "alarm_thread_turn ins now s ws = Some (ev, r)"
      and f: "set ev \<inter> set (fire alarm) \<noteq> {}"
  proof (cases "time alarm > now")
    case False
    with turn pop show ?thesis by (simp add: alarm_thread_turn_def)
  next
    case True
    show ?thesis
    proof (cases "timed_wait alarm (s1\<lparr>current_alarm := time alarm\<rparr>) ws1")
      case None
      with turn pop True show ?thesis by (simp add: alarm_thread_turn_def)
    next
      case (Some res)
      show ?thesis
      proof (cases res)
        case (Inl err)
        with Some turn pop True f show ?thesis by (simp add: alarm_thread_turn_def)
      next
        case (Inr t)
        obtain expired s' ws' where t: "t = (expired, s', ws')" by (cases t)
        show ?thesis
        proof (cases expired)
          case True
          with Some Inr t turn pop \<open>time alarm > now\<close> show ?thesis
            by (simp add: alarm_thread_turn_def)
        next
          case False
          with Some Inr t turn pop \<open>time alarm > now\<close> have "ev = fst (ins alarm s')"
            by (auto simp: alarm_thread_turn_def split: prod.splits sum.splits)
          with f nofire show ?thesis by simp
        qed
      qed
    qed
  qed
  from early fired show ?thesis by blast
qed

lemma alarm_thread_early_wake_sample:
  "alarm_thread_turn (alarm_insert 102 0) 100
     \<lparr>alarm_list = [schedule_req 10 1 1 110 ''first''], current_alarm = 0\<rparr>
     [(0, \<lparr>alarm_list = [schedule_req 3 2 2 105 ''second''], current_alarm = 105\<rparr>)]
   = Some ([], Inr (\<lparr>alarm_list = [schedule_req 3 2 2 105 ''second'', schedule_req 10 1 1 110 ''first''],
                     current_alarm = 105\<rparr>, []))
   \<and> current_alarm \<lparr>alarm_list = [schedule_req 3 2 2 105 ''second''], current_alarm = 105\<rparr>
        \<noteq> time (schedule_req 10 1 1 110 ''first'')"
proof -
  let ?first = "schedule_req 10 1 1 110 ''first''" and ?second = "schedule_req 3 2 2 105 ''second''"
  let ?s = "\<lparr>alarm_list = [?first], current_alarm = 0\<rparr>"
  let ?woken = "\<lparr>alarm_list = [?second], current_alarm = 105\<rparr>"
  have pop: "wait_and_pop (?s\<lparr>current_alarm := 0\<rparr>) [(0, ?woken)]
               = Some (Inr (?first, \<lparr>alarm_list = [], current_alarm = 0\<rparr>, [(0, ?woken)]))"
    by simp
  have due: "time ?first > 100" by (simp add: schedule_req_def)
  have tw: "timed_wait ?first (\<lparr>alarm_list = [], current_alarm = 0\<rparr>\<lparr>current_alarm := time ?first\<rparr>)
              [(0, ?woken)] = Some (Inr (False, ?woken, []))"
    by (simp add: ETIMEDOUT_def schedule_req_def)
  have ins: "alarm_insert 102 0 ?first ?woken
               = ([], Inr \<lparr>alarm_list = [?second, ?first], current_alarm = 105\<rparr>)"
    by (simp add: alarm_insert_def wake_def schedule_req_def)
  from alarm_thread_calls_insert_on_early_wake [of "alarm_insert 102 0" 102 0, OF _ pop,
      of 100 ?woken "[]"] due tw ins
  show ?thesis by simp
qed

text \<open>
  Claim C7 says that after an early wake the alarm thread puts the popped alarm back into
  the list and does not fire it. The thread does call \<open>alarm_insert\<close>, but in
  alarm\_cond.c that call links nothing when a queued Schedule request has the message
  number of the popped alarm. Below the alarm thread has popped request 7 due at 110 and
  waits; request 7 due at 105 is inserted, which sets \<open>current_alarm\<close> to 105 and wakes the
  thread. The turn ends with the replacement line printed, the popped alarm in no list and
  not fired: it is lost.
\<close>

theorem alarm_thread_loses_popped_alarm:
  "alarm_thread_turn (alarm_insert 102 0) 100
     \<lparr>alarm_list = [schedule_req 10 1 7 110 ''first''], current_alarm = 0\<rparr>
     [(0, \<lparr>alarm_list = [schedule_req 3 1 7 105 ''second''], current_alarm = 105\<rparr>)]
   = Some ([replacement_line 102 (schedule_req 10 1 7 110 ''first'')],
           Inr (\<lparr>alarm_list = [schedule_req 3 1 7 105 ''second''], current_alarm = 105\<rparr>, []))
   \<and> schedule_req 10 1 7 110 ''first'' \<notin> set [schedule_req 3 1 7 105 ''second'']
   \<and> set [replacement_line 102 (schedule_req 10 1 7 110 ''first'')]
         \<inter> set (fire (schedule_req 10 1 7 110 ''first'')) = {}"
  by (simp add: alarm_thread_turn_def alarm_insert_def wake_def schedule_req_def ETIMEDOUT_def
        replacement_line_def fire_def)

text \<open>With the \<open>alarm_insert\<close> of the other file the popped alarm is always in the list again.\<close>

lemma alarm_insert_part0_member:
  "alarm_insert_part0 sig_status alarm s = (ev, Inr s') \<Longrightarrow> alarm \<in> set (alarm_list s')"
  by (auto simp: alarm_insert_part0_def Let_def insert_scan_part0_set split: if_splits)

text \<open>The other way round: an alarm that is due, or whose wait timed out, fires.\<close>

lemma alarm_thread_fires:
  assumes "wait_and_pop (s\<lparr>current_alarm := 0\<rparr>) ws = Some (Inr (alarm, s1, ws1))"
  shows "time alarm \<le> now \<Longrightarrow> alarm_thread_turn ins now s ws = Some (fire alarm, Inr (s1, ws1))"
    and "time alarm > now
         \<Longrightarrow> timed_wait alarm (s1\<lparr>current_alarm := time alarm\<rparr>) ws1 = Some (Inr (True, s2, ws2))
         \<Longrightarrow> alarm_thread_turn ins now s ws = Some (fire alarm, Inr (s2, ws2))"
  using assms by (simp_all add: alarm_thread_turn_def)

section \<open>Properties of the main thread\<close>

subsection \<open>The validation loops\<close>

text \<open>
  A validation loop looks at the head of the list only. It is left at once when the list
  is empty or the head meets its test, and is never left otherwise.
\<close>

lemma scan_loop_Nil: "scan_loop P [] = Some False"
  by (simp add: scan_loop.simps)

lemma scan_loop_hit: "P n \<Longrightarrow> scan_loop P (n # rest) = Some True"
  by (subst scan_loop.simps) simp

lemma scan_loop_Some:
  assumes "scan_loop P l = Some y"
  shows "case l of [] \<Rightarrow> \<not> y | n # _ \<Rightarrow> P n \<and> y"
proof -
  let ?R = "\<lambda>(Q, nxt) z. (case nxt of [] \<Rightarrow> \<not> z | n # _ \<Rightarrow> Q n \<and> z)"
  have "?R (P, l) y"
  proof (rule scan_loop.raw_induct [OF _ assms])
    fix f Q nxt z
    assume ih: "\<And>Q' nxt' z'. f Q' nxt' = Some z' \<Longrightarrow> ?R (Q', nxt') z'"
      and body: "(case nxt of [] \<Rightarrow> Some False | n # _ \<Rightarrow> if Q n then Some True else f Q nxt) = Some z"
    show "?R (Q, nxt) z"
    proof (cases nxt)
      case Nil
      with body show ?thesis by simp
    next
      case (Cons n rest)
      show ?thesis
      proof (cases "Q n")
        case True
        with Cons body show ?thesis by simp
      next
        case False
        with Cons body have "f Q nxt = Some z" by simp
        from ih [OF this] show ?thesis .
      qed
    qed
  qed
  then show ?thesis by simp
qed

lemma scan_loop_stuck: "\<not> P n \<Longrightarrow> scan_loop P (n # rest) = None"
proof (rule ccontr)
  assume np: "\<not> P n" and "scan_loop P (n # rest) \<noteq> None"
  then obtain y where "scan_loop P (n # rest) = Some y" by auto
  from scan_loop_Some [OF this] np show False by simp
qed

lemma validation_Nil: "validation P1 e1 P2 e2 [] = Some ([], True)"
  by (simp add: validation_def scan_loop_Nil)

lemma validation_stuck:
  assumes "\<And>n. \<not> (P1 n \<and> P2 n)"
  shows "validation P1 e1 P2 e2 (n # rest) = None"
proof (cases "P1 n")
  case True
  with assms have "\<not> P2 n" by blast
  with True show ?thesis by (simp add: validation_def scan_loop_hit scan_loop_stuck)
next
  case False
  then show ?thesis by (simp add: validation_def scan_loop_stuck)
qed

lemma validate_stuck:
  "validate_B a (n # rest) = None" "validate_C a (n # rest) = None"
  "validate_D a (n # rest) = None" "validate_E a (n # rest) = None"
  by (simp_all add: validate_B_def validate_C_def validate_D_def validate_E_def validation_stuck)

lemma validate_Nil:
  "validate_B a [] = Some ([], True)" "validate_C a [] = Some ([], True)"
  "validate_D a [] = Some ([], True)" "validate_E a [] = Some ([], True)"
  by (simp_all add: validate_B_def validate_C_def validate_D_def validate_E_def validation_Nil)

text \<open>
  Claim C4 says that a Cancel request is rejected when no Schedule request with its
  message number is queued, accepted when one is, and rejected when it comes a second
  time. In the source the check of a Cancel request for number 7 lets the request pass on
  the empty list, and does not end on a list that holds Schedule request 7, with or
  without a Cancel request 7 behind it.
\<close>

theorem cancel_validation_wrong:
  "validate_C (zero_block\<lparr>type := CHR ''C'', messageNumber := 7\<rparr>) [] = Some ([], True)
   \<and> validate_C (zero_block\<lparr>type := CHR ''C'', messageNumber := 7\<rparr>)
        [schedule_req 50 1 7 150 ''x''] = None
   \<and> validate_C (zero_block\<lparr>type := CHR ''C'', messageNumber := 7\<rparr>)
        [schedule_req 50 1 7 150 ''x'', zero_block\<lparr>type := CHR ''C'', messageNumber := 7, time := 160\<rparr>]
        = None"
  by (simp add: validate_Nil validate_stuck)

subsection \<open>Turns of the main loop\<close>

lemma fgets_take_Cons:
  "fgets_take n (c # cs) =
     (if n = 0 then [] else if c = CHR 0x0A then [c] else c # fgets_take (n - 1) cs)"
  by (cases n) auto

lemma fgets_take_Nil: "fgets_take n [] = []"
  by (cases n) auto

lemmas line_simps =
  fgets_def fgets_take_Cons fgets_take_Nil c_string_def typeFinder_def line_at_def isdigit_def
  sscanf_def scan_d_def skip_ws_def isspace_def decimal_def digit_val_def strtol_range_def
  store_int_def EOF_def Let_def

lemma main_turn_parsed_control_line:
  assumes "fgets 128 inp = Some (buf, rest)" and "1 < length (c_string buf)"
    and "malloc_result e = Some fresh"
    and "typeFinder (c_string buf) = CHR ''B'' \<and> \<not> fst (sscanf (c_string buf) fmt_B) < 1
       \<or> typeFinder (c_string buf) = CHR ''C'' \<and> \<not> fst (sscanf (c_string buf) fmt_C) < 1
       \<or> typeFinder (c_string buf) = CHR ''D'' \<and> \<not> fst (sscanf (c_string buf) fmt_D) < 1
       \<or> typeFinder (c_string buf) = CHR ''E'' \<and> \<not> fst (sscanf (c_string buf) fmt_E) < 1"
  shows "main_turn e s inp = Some ([prompt], Inr (s, rest))"
  using assms by (auto simp: main_turn_def Let_def)

lemma main_turn_unrecognised:
  assumes "fgets 128 inp = Some (buf, rest)" and "1 < length (c_string buf)"
    and "typeFinder (c_string buf) = CHR ''F''"
  shows "main_turn e s inp = Some ([prompt, Printf ''bad command\<newline>'' []], Inr (s, rest))"
  using assms by (simp add: main_turn_def Let_def)

text \<open>On a list that is not empty no control request gets through its validation.\<close>

lemma control_request_stuck:
  assumes "alarm_list s \<noteq> []"
  shows "control_request e s alarm (validate_B alarm) accepted = None"
    and "control_request e s alarm (validate_C alarm) accepted = None"
    and "control_request e s alarm (validate_D alarm) accepted = None"
    and "control_request e s alarm (validate_E alarm) accepted = None"
  using assms by (cases "alarm_list s"; simp add: control_request_def validate_stuck)+

text \<open>
  Claim C5 says that the scans of the validation end on every list, so that the main loop
  goes on. In the source a line that reaches the validation of any of the four control
  cases while the list holds an entry starts a turn that never ends.
\<close>

theorem control_request_on_queued_list_never_ends:
  "main_turn sample_env \<lparr>alarm_list = [schedule_req 50 1 7 150 ''x''], current_alarm = 120\<rparr>
     ''Create_Thread\<newline>'' = None
   \<and> main_turn sample_env \<lparr>alarm_list = [schedule_req 50 1 7 150 ''x''], current_alarm = 120\<rparr>
     ''Cancel\<newline>'' = None
   \<and> main_turn sample_env \<lparr>alarm_list = [schedule_req 50 1 7 150 ''x''], current_alarm = 120\<rparr>
     ''Pause_Thread\<newline>'' = None
   \<and> main_turn sample_env \<lparr>alarm_list = [schedule_req 50 1 7 150 ''x''], current_alarm = 120\<rparr>
     ''Resume_Thread\<newline>'' = None"
  by (simp add: main_turn_def line_simps fmt_B_def fmt_C_def fmt_D_def fmt_E_def sample_env_def
        control_request_def validate_stuck)

text \<open>
  Claim C3 says that a well-formed control line leads to a request that is validated and
  inserted. In the source the body of each control case runs when \<open>sscanf\<close> converted
  nothing: for a well-formed line of any of the four kinds, in every state and with any
  block from \<open>malloc\<close>, the turn prints the prompt and does nothing else.
\<close>

theorem well_formed_control_lines_ignored:
  "main_turn (e\<lparr>malloc_result := Some fresh\<rparr>) s ''Create_Thread: MessageType(1)\<newline>''
     = Some ([prompt], Inr (s, []))
   \<and> main_turn (e\<lparr>malloc_result := Some fresh\<rparr>) s ''Cancel: Message(7)\<newline>''
     = Some ([prompt], Inr (s, []))
   \<and> main_turn (e\<lparr>malloc_result := Some fresh\<rparr>) s ''Pause_Thread: MessageType(1)\<newline>''
     = Some ([prompt], Inr (s, []))
   \<and> main_turn (e\<lparr>malloc_result := Some fresh\<rparr>) s ''Resume_Thread: MessageType(1)\<newline>''
     = Some ([prompt], Inr (s, []))"
proof -
  have b: "main_turn (e\<lparr>malloc_result := Some fresh\<rparr>) s ''Create_Thread: MessageType(1)\<newline>''
     = Some ([prompt], Inr (s, []))"
    by (simp add: main_turn_def line_simps fmt_B_def)
  have c: "main_turn (e\<lparr>malloc_result := Some fresh\<rparr>) s ''Cancel: Message(7)\<newline>''
     = Some ([prompt], Inr (s, []))"
    by (simp add: main_turn_def line_simps fmt_C_def)
  have d: "main_turn (e\<lparr>malloc_result := Some fresh\<rparr>) s ''Pause_Thread: MessageType(1)\<newline>''
     = Some ([prompt], Inr (s, []))"
    by (simp add: main_turn_def line_simps fmt_D_def)
  have e: "main_turn (e\<lparr>malloc_result := Some fresh\<rparr>) s ''Resume_Thread: MessageType(1)\<newline>''
     = Some ([prompt], Inr (s, []))"
    by (simp add: main_turn_def line_simps fmt_E_def)
  from b c d e show ?thesis by simp
qed

text \<open>
  Claim C9 says that a line that fits none of the five grammars gets a diagnostic and
  nothing is inserted. The line \<open>Cancel\<close> is no command, yet with an empty list the
  source inserts a request of type \<open>'C'\<close> with the message number left in the block
  from \<open>malloc\<close>, and prints the line of an accepted Cancel request.
\<close>

theorem malformed_cancel_inserted:
  "main_turn sample_env \<lparr>alarm_list = [], current_alarm = 0\<rparr> ''Cancel\<newline>''
   = Some ([prompt, Cond_signal,
            Printf ''Type C Cancel Alarm Request With Message Number %d Inserted Into Alarm List at %lld: %c''
              [I 0, I 100, C CHR ''C'']],
           Inr (\<lparr>alarm_list = [zero_block\<lparr>type := CHR ''C'', time := 100\<rparr>], current_alarm = 100\<rparr>, []))"
  by (simp add: main_turn_def line_simps fmt_C_def sample_env_def control_request_def validate_Nil
        submit_def alarm_insert_def wake_def zero_block_def)

text \<open>
  Lines that start like no command get the diagnostic of the \<open>default\<close> case, as
  \<open>main_turn_unrecognised\<close> above shows, and a line that starts with a digit and does not
  scan gets the one of case \<open>'A'\<close>:
\<close>

lemma main_turn_bad_schedule:
  assumes "fgets 128 inp = Some (buf, rest)" and "1 < length (c_string buf)"
    and "typeFinder (c_string buf) = CHR ''A''" and "malloc_result e = Some fresh"
    and "sscanf (c_string buf) fmt_A = (ret, vals)" and "ret < 4" and "\<not> list_ex overruns vals"
  shows "main_turn e s inp =
           Some ([prompt, Fprintf_stderr ''Bad command\<newline>'' [], Free (store_A vals fresh)],
                 Inr (s, rest))"
  using assms by (simp add: main_turn_def Let_def)

subsection \<open>The size of the message\<close>

lemma fgets_take_length: "length (fgets_take k inp) \<le> k"
  by (induction k inp rule: fgets_take.induct) auto

lemma fgets_length: "fgets n inp = Some (buf, rest) \<Longrightarrow> length buf \<le> n - 1"
  by (auto simp: fgets_def Let_def fgets_take_length split: if_splits)

lemma c_string_length: "length (c_string buf) \<le> length buf"
  by (simp add: c_string_def length_takeWhile_le)

lemma skip_ws_length: "length (skip_ws inp) \<le> length inp"
  by (simp add: skip_ws_def length_dropWhile_le)

text \<open>What \<open>%d\<close> stores is in the range of \<open>int\<close>, and is the number written when that fits.\<close>

lemma store_int_range: "- 2147483648 \<le> store_int v \<and> store_int v < 2147483648"
  by (simp add: store_int_def)

lemma store_int_id: "- 2147483648 \<le> v \<Longrightarrow> v < 2147483648 \<Longrightarrow> store_int (strtol_range v) = v"
  by (simp add: store_int_def strtol_range_def)

lemma scan_d_range: "scan_d inp = Some (v, rest) \<Longrightarrow> - 2147483648 \<le> v \<and> v < 2147483648"
  using store_int_range by (auto simp: scan_d_def Let_def split: if_splits prod.splits)

lemma scan_d_length: "scan_d inp = Some (v, rest) \<Longrightarrow> length rest \<le> length inp"
proof -
  assume a: "scan_d inp = Some (v, rest)"
  have le: "length (dropWhile isdigit xs) \<le> length xs" for xs
    by (rule length_dropWhile_le)
  have sk: "length (skip_ws inp) \<le> length inp" by (rule skip_ws_length)
  show ?thesis
  proof (cases "skip_ws inp")
    case Nil
    with a show ?thesis by (simp add: scan_d_def Let_def split: if_splits)
  next
    case (Cons c cs)
    then have cs: "length cs < length inp \<and> length (c # cs) \<le> length inp" using sk by simp
    from a Cons have "rest = dropWhile isdigit cs \<or> rest = dropWhile isdigit (c # cs)"
      by (auto simp: scan_d_def Let_def split: if_splits)
    then show ?thesis using le [of cs] le [of "c # cs"] cs by auto
  qed
qed

lemma scan_run_fits:
  "scan_run ds inp acc = (vals, ended) \<Longrightarrow> Str_val m \<in> set vals
     \<Longrightarrow> Str_val m \<in> set acc \<or> length m \<le> length inp"
proof (induction ds inp acc rule: scan_run.induct)
  case (1 inp acc)
  then show ?case by simp
next
  case (2 ds inp acc)
  then show ?case using skip_ws_length [of inp] by fastforce
next
  case (3 c ds inp acc)
  then show ?case by (cases inp) (fastforce split: if_splits)+
next
  case (4 ds inp acc)
  show ?case
  proof (cases "scan_d inp")
    case None
    with 4 show ?thesis by simp
  next
    case (Some p)
    obtain v rest where p: "p = (v, rest)" by (cases p)
    from "4.IH" [OF Some p [symmetric]] "4.prems" Some p
    have "Str_val m \<in> set (acc @ [Int_val v]) \<or> length m \<le> length rest" by simp
    with scan_d_length [of inp v rest] Some p show ?thesis by auto
  qed
next
  case (5 n ds inp acc)
  let ?m = "take n (takeWhile (\<lambda>c. c \<noteq> CHR 0x0A) inp)"
  show ?case
  proof (cases "?m = []")
    case True
    with 5 show ?thesis by (simp add: Let_def)
  next
    case False
    from "5.IH" [OF refl False] "5.prems" False
    have "Str_val m \<in> set (acc @ [Str_val ?m]) \<or> length m \<le> length (drop (length ?m) inp)"
      by (simp add: Let_def)
    moreover have "length ?m \<le> length inp"
      using length_takeWhile_le [of "\<lambda>c. c \<noteq> CHR 0x0A" inp] by simp
    ultimately show ?thesis by auto
  qed
qed

lemma sscanf_fits:
  "sscanf line fmt = (ret, vals) \<Longrightarrow> length line \<le> 127 \<Longrightarrow> \<not> list_ex overruns vals"
proof -
  assume a: "sscanf line fmt = (ret, vals)" and len: "length line \<le> 127"
  obtain ended where r: "scan_run fmt line [] = (vals, ended)"
    using a by (auto simp: sscanf_def split: prod.splits)
  have "\<not> overruns v" if "v \<in> set vals" for v
  proof (cases v)
    case (Int_val x) then show ?thesis by simp
  next
    case (Str_val m)
    with that scan_run_fits [OF r] have "length m \<le> length line" by auto
    with len Str_val show ?thesis by simp
  qed
  then show ?thesis by (auto simp: list_ex_iff)
qed

lemma fmt_A_shape:
  "scan_run fmt_A line [] = (vals, ended) \<Longrightarrow> 4 \<le> length vals
     \<Longrightarrow> \<exists>a b c m. vals = [Int_val a, Int_val b, Int_val c, Str_val m]"
  unfolding fmt_A_def
  by (auto simp: Let_def split: option.splits list.splits if_splits prod.splits)

lemma sscanf_A_shape:
  "sscanf line fmt_A = (ret, vals) \<Longrightarrow> \<not> ret < 4
     \<Longrightarrow> \<exists>a b c m. vals = [Int_val a, Int_val b, Int_val c, Str_val m]"
proof -
  assume a: "sscanf line fmt_A = (ret, vals)" and r: "\<not> ret < 4"
  obtain ended where s: "scan_run fmt_A line [] = (vals, ended)"
    using a by (auto simp: sscanf_def split: prod.splits)
  from a s r have "4 \<le> length vals"
    by (auto simp: sscanf_def EOF_def split: if_splits)
  with fmt_A_shape [OF s] show ?thesis by simp
qed

lemma insert_scan_set: "set (fst (insert_scan tnow alarm l)) \<subseteq> insert alarm (set l)"
  by (induction l) (auto simp: split_def)

lemma submit_set:
  "submit e alarm s = (ev, Inr s')
     \<Longrightarrow> set (alarm_list s') \<subseteq> insert (alarm\<lparr>time := time_stamp e + seconds alarm\<rparr>) (set (alarm_list s))"
  using insert_scan_set [of "time_insert e" "alarm\<lparr>time := time_stamp e + seconds alarm\<rparr>" "alarm_list s"]
  by (auto simp: submit_def alarm_insert_def split_def split: if_splits)

lemma control_request_set:
  "control_request e s alarm validate accepted = Some (ev, Inr s')
     \<Longrightarrow> set (alarm_list s') \<subseteq> insert (alarm\<lparr>time := time_stamp e + seconds alarm\<rparr>) (set (alarm_list s))"
proof -
  assume a: "control_request e s alarm validate accepted = Some (ev, Inr s')"
  then obtain ev0 proceed where v: "validate (alarm_list s) = Some (ev0, proceed)"
    by (auto simp: control_request_def split: option.splits)
  show ?thesis
  proof (cases proceed)
    case False
    with a v show ?thesis by (auto simp: control_request_def)
  next
    case True
    obtain ev1 r1 where sub: "submit e alarm s = (ev1, r1)" by (cases "submit e alarm s")
    with a v True have "r1 = Inr s'"
      by (cases r1) (auto simp: control_request_def)
    with sub submit_set show ?thesis by blast
  qed
qed

lemma submit_error: "submit e alarm s = (ev, Inl err) \<Longrightarrow> \<exists>st txt. err = Err_abort st txt"
  by (auto simp: submit_def alarm_insert_def split_def split: if_splits)

lemma control_request_error:
  "control_request e s alarm validate accepted = Some (ev, Inl err) \<Longrightarrow> \<exists>st txt. err = Err_abort st txt"
proof -
  assume a: "control_request e s alarm validate accepted = Some (ev, Inl err)"
  then obtain ev0 proceed where v: "validate (alarm_list s) = Some (ev0, proceed)"
    by (auto simp: control_request_def split: option.splits)
  show ?thesis
  proof (cases proceed)
    case False
    with a v show ?thesis by (auto simp: control_request_def)
  next
    case True
    obtain ev1 r1 where sub: "submit e alarm s = (ev1, r1)" by (cases "submit e alarm s")
    with a v True have "r1 = Inl err"
      by (cases r1) (auto simp: control_request_def)
    with sub submit_error show ?thesis by blast
  qed
qed

lemma control_fits:
  assumes "(case control_request e s alarm validate accepted of
              None \<Rightarrow> None
            | Some (ev, Inl err) \<Rightarrow> Some (prompt # ev, Inl err)
            | Some (ev, Inr s') \<Rightarrow> Some (prompt # ev, Inr (s', rest))) = Some (ev', r)"
    and "type alarm \<noteq> CHR ''A''"
  shows "message_fits s r"
proof -
  from assms(1) obtain ev0 r0 where c: "control_request e s alarm validate accepted = Some (ev0, r0)"
    by (auto split: option.splits)
  show ?thesis
  proof (cases r0)
    case (Inl err)
    with c assms(1) control_request_error [of e s alarm validate accepted ev0 err]
    show ?thesis by (auto simp: message_fits_def)
  next
    case (Inr s1)
    with c assms(1) have r: "r = Inr (s1, rest)" by simp
    from control_request_set [of e s alarm validate accepted ev0 s1] c Inr
    have "set (alarm_list s1) \<subseteq> insert (alarm\<lparr>time := time_stamp e + seconds alarm\<rparr>) (set (alarm_list s))"
      by simp
    with r assms(2) show ?thesis by (auto simp: message_fits_def)
  qed
qed

lemma schedule_fits:
  assumes sc: "sscanf line fmt_A = (ret, vals)" and len: "length line \<le> 127" and ok: "\<not> ret < 4"
    and res: "(case Some (submit e ((store_A vals fresh)\<lparr>type := CHR ''A''\<rparr>) s) of
              None \<Rightarrow> None
            | Some (ev, Inl err) \<Rightarrow> Some (prompt # ev, Inl err)
            | Some (ev, Inr s') \<Rightarrow> Some (prompt # ev, Inr (s', rest))) = Some (ev', r)"
  shows "message_fits s r"
proof -
  from sscanf_A_shape [OF sc ok] obtain a b c m where
    vals: "vals = [Int_val a, Int_val b, Int_val c, Str_val m]" by blast
  from sscanf_fits [OF sc len] vals have m: "length m \<le> 127" by simp
  let ?al = "(store_A vals fresh)\<lparr>type := CHR ''A''\<rparr>"
  have msg: "message ?al = m" using vals by simp
  obtain ev0 r0 where sub: "submit e ?al s = (ev0, r0)" by (cases "submit e ?al s")
  show ?thesis
  proof (cases r0)
    case (Inl err)
    with sub res submit_error [of e ?al s ev0 err] show ?thesis by (auto simp: message_fits_def)
  next
    case (Inr s1)
    with sub res have r: "r = Inr (s1, rest)" by simp
    from submit_set [of e ?al s ev0 s1] sub Inr
    have "set (alarm_list s1) \<subseteq> insert (?al\<lparr>time := time_stamp e + seconds ?al\<rparr>) (set (alarm_list s))"
      by simp
    with r msg m show ?thesis by (auto simp: message_fits_def)
  qed
qed

text \<open>A turn on a line that starts with a digit always ends.\<close>

lemma main_turn_schedule_returns:
  assumes "fgets 128 inp = Some (buf, rest)" and "typeFinder (c_string buf) = CHR ''A''"
  shows "\<exists>ev r. main_turn e s inp = Some (ev, r)"
proof (cases "length (c_string buf) \<le> 1")
  case True
  with assms show ?thesis by (simp add: main_turn_def)
next
  case False
  show ?thesis
  proof (cases "malloc_result e")
    case None
    with assms False show ?thesis by (simp add: main_turn_def Let_def)
  next
    case (Some fresh)
    obtain ret vals where sc: "sscanf (c_string buf) fmt_A = (ret, vals)"
      by (cases "sscanf (c_string buf) fmt_A")
    obtain ev0 r0 where sub: "submit e ((store_A vals fresh)\<lparr>type := CHR ''A''\<rparr>) s = (ev0, r0)"
      by (cases "submit e ((store_A vals fresh)\<lparr>type := CHR ''A''\<rparr>) s")
    from assms False Some sc sub show ?thesis
      by (cases r0) (simp_all add: main_turn_def Let_def)
  qed
qed

text \<open>
  Claim C8. \<open>fgets\<close> reads at most 127 characters into \<open>line\<close>, and what \<open>sscanf\<close>
  stores in \<open>message\<close> is a piece of that line. So no turn of \<open>main\<close> stores behind
  the end of \<open>message\<close>, although the format allows 128 characters and a zero byte, and
  every Schedule request that a turn adds to the list carries at most 127 characters.
\<close>

theorem stored_message_fits:
  assumes "main_turn e s inp = Some (ev, r)"
  shows "r \<noteq> Inl Buffer_overrun
     \<and> (\<forall>s' rest alarm. r = Inr (s', rest) \<and> alarm \<in> set (alarm_list s') \<and> alarm \<notin> set (alarm_list s)
           \<and> type alarm = CHR ''A'' \<longrightarrow> length (message alarm) \<le> 127)"
proof -
  have "message_fits s r"
  proof (cases "fgets 128 inp")
    case None
    with assms show ?thesis by (auto simp: main_turn_def message_fits_def)
  next
    case (Some p)
    obtain buf rest where p: "p = (buf, rest)" by (cases p)
    let ?line = "c_string buf"
    have len: "length ?line \<le> 127"
      using fgets_length [of 128 inp buf rest] Some p c_string_length [of buf] by simp
    show ?thesis
    proof (cases "length ?line \<le> 1")
      case True
      with assms Some p show ?thesis by (auto simp: main_turn_def message_fits_def)
    next
      case long: False
      show ?thesis
      proof (cases "malloc_result e")
        case None
        with assms Some p long show ?thesis
          by (auto simp: main_turn_def Let_def message_fits_def split: if_splits)
      next
        case fresh: (Some fresh)
        consider (A) "typeFinder ?line = CHR ''A''" | (B) "typeFinder ?line = CHR ''B''"
          | (C) "typeFinder ?line = CHR ''C''" | (D) "typeFinder ?line = CHR ''D''"
          | (E) "typeFinder ?line = CHR ''E''"
          | (F) "typeFinder ?line \<notin> {CHR ''A'', CHR ''B'', CHR ''C'', CHR ''D'', CHR ''E''}"
          by blast
        then show ?thesis
        proof cases
          case A
          obtain ret vals where sc: "sscanf ?line fmt_A = (ret, vals)" by (cases "sscanf ?line fmt_A")
          have nov: "\<not> list_ex overruns vals" by (rule sscanf_fits [OF sc len])
          show ?thesis
          proof (cases "ret < 4")
            case True
            with assms Some p long fresh A sc nov show ?thesis
              by (auto simp: main_turn_def Let_def message_fits_def)
          next
            case False
            with assms Some p long fresh A sc nov
            have "(case Some (submit e ((store_A vals fresh)\<lparr>type := CHR ''A''\<rparr>) s) of
              None \<Rightarrow> None
            | Some (ev, Inl err) \<Rightarrow> Some (prompt # ev, Inl err)
            | Some (ev, Inr s') \<Rightarrow> Some (prompt # ev, Inr (s', rest))) = Some (ev, r)"
              by (simp add: main_turn_def Let_def)
            from schedule_fits [OF sc len False this] show ?thesis .
          qed
        next
          case B
          show ?thesis
          proof (cases "fst (sscanf ?line fmt_B) < 1")
            case True
            with assms Some p long fresh B show ?thesis
              by (auto simp: main_turn_def Let_def intro!: control_fits [where alarm = "fresh\<lparr>type := CHR ''B''\<rparr>"])
          next
            case False
            with assms Some p long fresh B show ?thesis
              by (auto simp: main_turn_def Let_def message_fits_def)
          qed
        next
          case C
          show ?thesis
          proof (cases "fst (sscanf ?line fmt_C) < 1")
            case True
            with assms Some p long fresh C show ?thesis
              by (auto simp: main_turn_def Let_def intro!: control_fits [where alarm = "fresh\<lparr>type := CHR ''C''\<rparr>"])
          next
            case False
            with assms Some p long fresh C show ?thesis
              by (auto simp: main_turn_def Let_def message_fits_def)
          qed
        next
          case D
          show ?thesis
          proof (cases "fst (sscanf ?line fmt_D) < 1")
            case True
            with assms Some p long fresh D show ?thesis
              by (auto simp: main_turn_def Let_def intro!: control_fits [where alarm = "fresh\<lparr>type := CHR ''D''\<rparr>"])
          next
            case False
            with assms Some p long fresh D show ?thesis
              by (auto simp: main_turn_def Let_def message_fits_def)
          qed
        next
          case E
          show ?thesis
          proof (cases "fst (sscanf ?line fmt_E) < 1")
            case True
            with assms Some p long fresh E show ?thesis
              by (auto simp: main_turn_def Let_def intro!: control_fits [where alarm = "fresh\<lparr>type := CHR ''E''\<rparr>"])
          next
            case False
            with assms Some p long fresh E show ?thesis
              by (auto simp: main_turn_def Let_def message_fits_def)
          qed
        next
          case F
          with assms Some p long fresh show ?thesis
            by (auto simp: main_turn_def Let_def message_fits_def)
        qed
      qed
    qed
  qed
  then show ?thesis unfolding message_fits_def .
qed

theorem stored_message_fits_witness:
  "main_turn sample_env \<lparr>alarm_list = [], current_alarm = 0\<rparr> ''5 Message(2, 13) Visit Grandma\<newline>''
     = Some ([prompt, Cond_signal],
             Inr (\<lparr>alarm_list = [schedule_req 5 2 13 105 ''Visit Grandma''], current_alarm = 105\<rparr>, []))
   \<and> length (message (schedule_req 5 2 13 105 ''Visit Grandma'')) \<le> 127"
proof -
  have t: "main_turn sample_env \<lparr>alarm_list = [], current_alarm = 0\<rparr> ''5 Message(2, 13) Visit Grandma\<newline>''
     = Some ([prompt, Cond_signal],
             Inr (\<lparr>alarm_list = [schedule_req 5 2 13 105 ''Visit Grandma''], current_alarm = 105\<rparr>, []))"
    by (simp add: main_turn_def line_simps fmt_A_def sample_env_def submit_def alarm_insert_def
          wake_def zero_block_def schedule_req_def)
  from stored_message_fits [OF t] have
    "length (message (schedule_req 5 2 13 105 ''Visit Grandma'')) \<le> 127"
    by (simp add: schedule_req_def)
  with t show ?thesis by simp
qed

end
